theory Spec2Isabelle
  imports Main "HOL-Library.AList"
begin

section \<open>The crossword constraint solver of \<open>generate.py\<close>\<close>

text \<open>
  The class \<open>CrosswordCreator\<close> of \<open>generate.py\<close> is embedded function by function.
  Representation choices, used throughout:
  \<^item> a Python \<open>dict\<close> is an association list in insertion order (the order its
    \<open>items()\<close> and \<open>keys()\<close> are iterated in); \<open>d[k] = v\<close> is \<open>AList.update\<close>,
    which overwrites in place or appends at the end, as the dictionary does;
  \<^item> a Python \<open>set\<close> is a list without duplicates whose order stands for the order
    in which that set is iterated; statements about its members use \<open>set\<close>;
  \<^item> an exception is a value \<open>Inl e\<close> of the result type \<open>error + 'a\<close>;
  \<^item> \<open>self\<close> is passed in and, where the method mutates it, returned.
\<close>

subsection \<open>Python values and errors\<close>

datatype error = KeyError | IndexError | TypeError

definition py_index :: "string \<Rightarrow> int \<Rightarrow> error + char" where
  \<comment> \<open>\<open>word[k]\<close>: a negative index counts from the end, an index out of range raises.\<close>
  "py_index word k =
     (let n = int (length word); k' = (if k < 0 then n + k else k)
      in if 0 \<le> k' \<and> k' < n then Inr (word ! nat k') else Inl IndexError)"

definition dict_get :: "('k \<times> 'v) list \<Rightarrow> 'k \<Rightarrow> error + 'v" where
  \<comment> \<open>\<open>d[k]\<close>: a missing key raises.\<close>
  "dict_get d k = (case map_of d k of None \<Rightarrow> Inl KeyError | Some v \<Rightarrow> Inr v)"

definition dict_keys :: "('k \<times> 'v) list \<Rightarrow> 'k list" where
  "dict_keys d = map fst d"

subsection \<open>The problem instance\<close>

datatype direction = ACROSS | DOWN

text \<open>
  Modelled from the spec: the class \<open>Variable\<close> of the module \<open>crossword\<close>, which
  \<open>generate.py\<close> imports and which is not among the sources. The spec gives it a start
  row, a start column, a direction and a required length, and makes two variables equal
  iff all four agree.
\<close>

datatype variable =
  Variable (var_i: int) (var_j: int) (var_direction: direction) (var_length: int)

text \<open>
  Modelled from the spec: the class \<open>Crossword\<close> of the same module, with the three
  attributes \<open>generate.py\<close> reads: \<open>variables\<close> (a set), \<open>words\<close> (a set) and
  \<open>overlaps\<close>, a dictionary from ordered pairs of variables to either \<open>None\<close> (no
  common cell) or a pair of indices. A pair that is no key of the dictionary is
  \<open>None\<close> here, \<open>Some None\<close> is the stored value \<open>None\<close>.
\<close>

record crossword =
  variables :: "variable list"
  words :: "string list"
  overlaps :: "variable \<times> variable \<Rightarrow> (int \<times> int) option option"

text \<open>
  Modelled from the spec: the method \<open>Crossword.neighbors\<close>, not among the sources.
  The spec: for a variable \<open>x\<close>, the set of all other variables that share a nonempty
  overlap with \<open>x\<close>, derived from the overlap relation.
\<close>

definition has_overlap :: "crossword \<Rightarrow> variable \<Rightarrow> variable \<Rightarrow> bool" where
  "has_overlap cw v var =
     (case overlaps cw (v, var) of Some (Some ov) \<Rightarrow> True | _ \<Rightarrow> False)"

definition neighbors :: "crossword \<Rightarrow> variable \<Rightarrow> variable list" where
  "neighbors cw var = filter (\<lambda>v. v \<noteq> var \<and> has_overlap cw v var) (variables cw)"

subsection \<open>The solver state\<close>

type_synonym assignment = "(variable \<times> string) list"

record creator =
  crossword :: crossword
  domains :: "(variable \<times> string list) list"

definition init :: "crossword \<Rightarrow> creator" where
  \<comment> \<open>\<open>__init__\<close>: every variable starts with a copy of the whole vocabulary.\<close>
  "init cw = \<lparr>crossword = cw, domains = map (\<lambda>var. (var, words cw)) (variables cw)\<rparr>"

subsection \<open>\<open>enforce_node_consistency\<close>\<close>

definition enforce_node_consistency :: "creator \<Rightarrow> creator" where
  "enforce_node_consistency st =
     st\<lparr>domains :=
          map (\<lambda>(var, ws). (var, filter (\<lambda>word. int (length word) = var_length var) ws))
              (domains st)\<rparr>"

subsection \<open>\<open>revise\<close>\<close>

text \<open>
  The inner loop over \<open>self.domains[y]\<close>: it does not stop at the first match, so every
  \<open>wordY\<close> is indexed. The result says whether \<open>wordX\<close> was added.
\<close>

fun revise_wordY :: "char \<Rightarrow> int \<Rightarrow> string list \<Rightarrow> error + bool" where
  "revise_wordY letherX k [] = Inr False"
| "revise_wordY letherX k (wordY # ys) =
     (case py_index wordY k of
        Inl e \<Rightarrow> Inl e
      | Inr letherY \<Rightarrow>
          (case revise_wordY letherX k ys of
             Inl e \<Rightarrow> Inl e
           | Inr added \<Rightarrow> Inr (letherX = letherY \<or> added)))"

text \<open>
  The outer loop over \<open>self.domains[x]\<close>, building \<open>arcConsistentXY\<close>. The lookup
  \<open>self.domains[y]\<close> is made once for each \<open>wordX\<close>, so its \<open>KeyError\<close> is only raised
  when the loop body runs.
\<close>

fun revise_wordX :: "int \<times> int \<Rightarrow> error + string list \<Rightarrow> string list \<Rightarrow> error + string list" where
  "revise_wordX overlap dy [] = Inr []"
| "revise_wordX overlap dy (wordX # xs) =
     (case py_index wordX (fst overlap) of
        Inl e \<Rightarrow> Inl e
      | Inr letherX \<Rightarrow>
          (case dy of
             Inl e \<Rightarrow> Inl e
           | Inr wordsY \<Rightarrow>
               (case revise_wordY letherX (snd overlap) wordsY of
                  Inl e \<Rightarrow> Inl e
                | Inr added \<Rightarrow>
                    (case revise_wordX overlap dy xs of
                       Inl e \<Rightarrow> Inl e
                     | Inr arcConsistentXY \<Rightarrow>
                         Inr (if added then wordX # arcConsistentXY else arcConsistentXY)))))"

definition revise :: "creator \<Rightarrow> variable \<Rightarrow> variable \<Rightarrow> error + (bool \<times> creator)" where
  "revise st x y =
     (case overlaps (crossword st) (x, y) of
        None \<Rightarrow> Inl KeyError
      | Some None \<Rightarrow> Inr (False, st)
      | Some (Some overlap) \<Rightarrow>
          (case dict_get (domains st) x of
             Inl e \<Rightarrow> Inl e
           | Inr wordsX \<Rightarrow>
               (case revise_wordX overlap (dict_get (domains st) y) wordsX of
                  Inl e \<Rightarrow> Inl e
                | Inr arcConsistentXY \<Rightarrow>
                    if set arcConsistentXY = set wordsX then Inr (False, st)
                    else Inr (True, st\<lparr>domains := AList.update x arcConsistentXY (domains st)\<rparr>))))"

subsection \<open>\<open>assignment_complete\<close> and \<open>consistent\<close>\<close>

definition assignment_complete :: "creator \<Rightarrow> assignment \<Rightarrow> bool" where
  "assignment_complete st asg = (length (dict_keys asg) = length (dict_keys (domains st)))"

text \<open>
  The inner loop of \<open>consistent\<close> over \<open>assignment.items()\<close>: \<open>False\<close> when it executes
  \<open>return False\<close>, \<open>True\<close> when it runs to its end.
\<close>

fun consistent_y :: "crossword \<Rightarrow> variable \<Rightarrow> string \<Rightarrow> assignment \<Rightarrow> error + bool" where
  "consistent_y cw x wordX [] = Inr True"
| "consistent_y cw x wordX ((y, wordY) # rest) =
     (if x \<noteq> y then
        (if wordX = wordY then Inr False
         else if y \<in> set (neighbors cw x) then
           (case overlaps cw (x, y) of
              Some (Some overlap) \<Rightarrow>
                (case py_index wordX (fst overlap) of
                   Inl e \<Rightarrow> Inl e
                 | Inr cx \<Rightarrow>
                     (case py_index wordY (snd overlap) of
                        Inl e \<Rightarrow> Inl e
                      | Inr cy \<Rightarrow>
                          if cx \<noteq> cy then Inr False else consistent_y cw x wordX rest))
            | _ \<Rightarrow> consistent_y cw x wordX rest)
         else consistent_y cw x wordX rest)
      else consistent_y cw x wordX rest)"

text \<open>
  The outer loop. Its last statement, \<open>return True\<close>, is inside the loop body, so the
  items after the first one are never visited; with no item at all the function ends
  without a \<open>return\<close>, which is the value \<open>None\<close> (here \<open>Inr None\<close>).
\<close>

fun consistent_x :: "crossword \<Rightarrow> assignment \<Rightarrow> assignment \<Rightarrow> error + bool option" where
  "consistent_x cw asg [] = Inr None"
| "consistent_x cw asg ((x, wordX) # rest) =
     (if int (length wordX) \<noteq> var_length x then Inr (Some False)
      else
        (case consistent_y cw x wordX asg of
           Inl e \<Rightarrow> Inl e
         | Inr False \<Rightarrow> Inr (Some False)
         | Inr True \<Rightarrow> Inr (Some True)))"

definition consistent :: "creator \<Rightarrow> assignment \<Rightarrow> error + bool option" where
  "consistent st asg = consistent_x (crossword st) asg asg"

subsection \<open>\<open>ac3\<close>\<close>

definition dom_size :: "creator \<Rightarrow> nat" where
  \<comment> \<open>The number of candidate words left over all variables: what \<open>ac3\<close> uses up.\<close>
  "dom_size st = sum_list (map (\<lambda>p. length (snd p)) (domains st))"

definition revise_keep :: "int \<times> int \<Rightarrow> error + string list \<Rightarrow> string \<Rightarrow> bool" where
  \<comment> \<open>Whether the loops of \<open>revise\<close> add \<open>wordX\<close> to \<open>arcConsistentXY\<close>.\<close>
  "revise_keep overlap dy wordX =
     (case py_index wordX (fst overlap) of
        Inl e \<Rightarrow> False
      | Inr letherX \<Rightarrow>
          (case dy of
             Inl e \<Rightarrow> False
           | Inr wordsY \<Rightarrow> revise_wordY letherX (snd overlap) wordsY = Inr True))"

text \<open>The loop \<open>for z in self.crossword.neighbors(x)\<close>, appending to the queue.\<close>

fun ac3_enqueue :: "variable \<Rightarrow> variable list \<Rightarrow> (variable \<times> variable) list \<Rightarrow> (variable \<times> variable) list" where
  "ac3_enqueue x [] arcs = arcs"
| "ac3_enqueue x (z # zs) arcs =
     ac3_enqueue x zs (if (z, x) \<in> set arcs then arcs else arcs @ [(z, x)])"

lemma revise_wordX_filter:
  "revise_wordX overlap dy xs = Inr r \<Longrightarrow> r = filter (revise_keep overlap dy) xs"
proof (induction xs arbitrary: r)
  case Nil
  then show ?case by simp
next
  case (Cons wordX xs)
  from Cons.prems obtain letherX wordsY added r' where
    ix: "py_index wordX (fst overlap) = Inr letherX" and
    dy: "dy = Inr wordsY" and
    ad: "revise_wordY letherX (snd overlap) wordsY = Inr added" and
    r': "revise_wordX overlap dy xs = Inr r'" and
    r: "r = (if added then wordX # r' else r')"
    by (auto split: sum.splits)
  have "revise_keep overlap dy wordX = added"
    by (simp add: revise_keep_def ix dy ad)
  with Cons.IH [OF r'] r show ?case by simp
qed

lemma dom_size_update:
  "map_of d x = Some old \<Longrightarrow> length new < length old \<Longrightarrow>
   sum_list (map (\<lambda>p. length (snd p)) (AList.update x new d))
     < sum_list (map (\<lambda>p. length (snd p)) d)"
  by (induction d) (auto split: if_splits)

lemma revise_False_state: "revise st x y = Inr (False, st') \<Longrightarrow> st' = st"
  by (auto simp: revise_def split: option.splits sum.splits if_splits)

lemma revise_True_dom_size:
  assumes "revise st x y = Inr (True, st')"
  shows "dom_size st' < dom_size st"
proof -
  from assms obtain overlap wordsX r where
    dx: "dict_get (domains st) x = Inr wordsX" and
    r: "revise_wordX overlap (dict_get (domains st) y) wordsX = Inr r" and
    ne: "set r \<noteq> set wordsX" and
    st': "st' = st\<lparr>domains := AList.update x r (domains st)\<rparr>"
    by (auto simp: revise_def split: option.splits sum.splits if_splits)
  from revise_wordX_filter [OF r] obtain P where P: "r = filter P wordsX" by blast
  from ne P have "\<exists>w \<in> set wordsX. \<not> P w" by auto
  then have "length r < length wordsX"
    unfolding P by (auto intro: length_filter_less)
  moreover from dx have "map_of (domains st) x = Some wordsX"
    by (simp add: dict_get_def split: option.splits)
  ultimately show ?thesis
    by (simp add: dom_size_def st' dom_size_update)
qed

text \<open>
  The \<open>while arcs\<close> loop. Each round either leaves the domains alone and shortens the
  queue, or removes a word from a domain.
\<close>

function ac3_loop :: "creator \<Rightarrow> (variable \<times> variable) list \<Rightarrow> error + (bool \<times> creator)" where
  "ac3_loop st [] = Inr (True, st)"
| "ac3_loop st ((x, y) # arcs) =
     (case revise st x y of
        Inl e \<Rightarrow> Inl e
      | Inr (revised, st') \<Rightarrow>
          if revised then
            (case dict_get (domains st') x of
               Inl e \<Rightarrow> Inl e
             | Inr wordsX \<Rightarrow>
                 if length wordsX = 0 then Inr (False, st')
                 else ac3_loop st' (ac3_enqueue x (neighbors (crossword st') x) arcs))
          else ac3_loop st' arcs)"
  by pat_completeness auto
termination
  by (relation "measures [\<lambda>(st, arcs). dom_size st, \<lambda>(st, arcs). length arcs]")
     (auto dest: revise_True_dom_size revise_False_state)

definition all_arcs :: "creator \<Rightarrow> (variable \<times> variable) list" where
  \<comment> \<open>\<open>[(x,y) for x in self.domains.keys() for y in self.domains.keys() if y!=x]\<close>\<close>
  "all_arcs st =
     concat (map (\<lambda>x. map (\<lambda>y. (x, y)) (filter (\<lambda>y. y \<noteq> x) (dict_keys (domains st))))
                 (dict_keys (domains st)))"

definition ac3 :: "creator \<Rightarrow> (variable \<times> variable) list option \<Rightarrow> error + (bool \<times> creator)" where
  "ac3 st arcs = ac3_loop st (case arcs of None \<Rightarrow> all_arcs st | Some given \<Rightarrow> given)"


subsection \<open>\<open>order_domain_values\<close>\<close>

text \<open>The innermost loop, over \<open>self.domains[y]\<close>; \<open>overlapXY[0]\<close> on \<open>None\<close> raises.\<close>

fun odv_wordY :: "string \<Rightarrow> (int \<times> int) option \<Rightarrow> string list \<Rightarrow> nat \<Rightarrow> error + nat" where
  "odv_wordY wordX overlapXY [] eliminate = Inr eliminate"
| "odv_wordY wordX overlapXY (wordY # ys) eliminate =
     (case overlapXY of
        None \<Rightarrow> Inl TypeError
      | Some overlap \<Rightarrow>
          (case py_index wordX (fst overlap) of
             Inl e \<Rightarrow> Inl e
           | Inr cx \<Rightarrow>
               (case py_index wordY (snd overlap) of
                  Inl e \<Rightarrow> Inl e
                | Inr cy \<Rightarrow>
                    odv_wordY wordX overlapXY ys (if cx \<noteq> cy then eliminate + 1 else eliminate))))"

text \<open>The loop over \<open>self.crossword.neighbors(var)\<close>.\<close>

fun odv_neighbors :: "creator \<Rightarrow> variable \<Rightarrow> assignment \<Rightarrow> string \<Rightarrow> variable list \<Rightarrow> nat \<Rightarrow> error + nat" where
  "odv_neighbors st var asg wordX [] eliminate = Inr eliminate"
| "odv_neighbors st var asg wordX (y # ys) eliminate =
     (if y \<in> set (dict_keys asg) then odv_neighbors st var asg wordX ys eliminate
      else
        (case overlaps (crossword st) (var, y) of
           None \<Rightarrow> Inl KeyError
         | Some overlapXY \<Rightarrow>
             (case dict_get (domains st) y of
                Inl e \<Rightarrow> Inl e
              | Inr wordsY \<Rightarrow>
                  (case odv_wordY wordX overlapXY wordsY eliminate of
                     Inl e \<Rightarrow> Inl e
                   | Inr eliminate' \<Rightarrow> odv_neighbors st var asg wordX ys eliminate'))))"

text \<open>The loop over \<open>self.domains[var]\<close>, building \<open>domainOrder\<close>.\<close>

fun odv_words :: "creator \<Rightarrow> variable \<Rightarrow> assignment \<Rightarrow> string list \<Rightarrow> error + (string \<times> nat) list" where
  "odv_words st var asg [] = Inr []"
| "odv_words st var asg (wordX # xs) =
     (case odv_neighbors st var asg wordX (neighbors (crossword st) var) 0 of
        Inl e \<Rightarrow> Inl e
      | Inr eliminate \<Rightarrow>
          (case odv_words st var asg xs of
             Inl e \<Rightarrow> Inl e
           | Inr domainOrder \<Rightarrow> Inr ((wordX, eliminate) # domainOrder)))"

definition order_domain_values :: "creator \<Rightarrow> variable \<Rightarrow> assignment \<Rightarrow> error + string list" where
  \<comment> \<open>\<open>list.sort\<close> is stable, as \<open>sort_key\<close> is.\<close>
  "order_domain_values st var asg =
     (case dict_get (domains st) var of
        Inl e \<Rightarrow> Inl e
      | Inr wordsX \<Rightarrow>
          (case odv_words st var asg wordsX of
             Inl e \<Rightarrow> Inl e
           | Inr domainOrder \<Rightarrow> Inr (map fst (sort_key snd domainOrder))))"

subsection \<open>\<open>select_unassigned_variable\<close>\<close>

text \<open>
  The loop over \<open>variables\<close>. The pair \<open>less\<close> (here \<open>lessP\<close>) starts as \<open>('x', inf)\<close>, which is \<open>None\<close>
  here: every count is below \<open>inf\<close> and none equals it. The test
  \<open>nNeiVar > nNeiLessVar\<close> compares two sets, and \<open>>\<close> on Python sets is proper
  superset.
\<close>

fun select_loop :: "creator \<Rightarrow> assignment \<Rightarrow> variable list \<Rightarrow> (variable \<times> nat) option \<Rightarrow> error + (variable \<times> nat) option" where
  "select_loop st asg [] lessP = Inr lessP"
| "select_loop st asg (var # vs) lessP =
     (case order_domain_values st var asg of
        Inl e \<Rightarrow> Inl e
      | Inr vals \<Rightarrow>
          (let nValues = length vals in
           case lessP of
             None \<Rightarrow> select_loop st asg vs (Some (var, nValues))
           | Some (lessVar, lessValues) \<Rightarrow>
               if nValues < lessValues then select_loop st asg vs (Some (var, nValues))
               else if nValues = lessValues then
                 (if set (neighbors (crossword st) lessVar) \<subset> set (neighbors (crossword st) var)
                  then select_loop st asg vs (Some (var, nValues))
                  else select_loop st asg vs lessP)
               else select_loop st asg vs lessP))"

text \<open>
  \<open>variables\<close> is the crossword's own set, not a copy, so \<open>difference_update\<close> removes
  the assigned variables from the problem instance. The result \<open>None\<close> is the string
  \<open>'x'\<close> that is returned when the loop body never ran.
\<close>

definition select_unassigned_variable :: "creator \<Rightarrow> assignment \<Rightarrow> error + (variable option \<times> creator)" where
  "select_unassigned_variable st asg =
     (let variables' = filter (\<lambda>v. v \<notin> set (dict_keys asg)) (variables (crossword st));
          st' = st\<lparr>crossword := (crossword st)\<lparr>variables := variables'\<rparr>\<rparr>
      in case select_loop st' asg variables' None of
           Inl e \<Rightarrow> Inl e
         | Inr lessP \<Rightarrow> Inr (map_option fst lessP, st'))"


subsection \<open>\<open>backtrack\<close> and \<open>solve\<close>\<close>

text \<open>
  \<open>backtrack\<close> returns either the dictionary \<open>assignment\<close> or \<open>None\<close>; its result type
  here is \<open>assignment option\<close>. The loop compares that result with \<open>False\<close>, so the
  values Python compares are made explicit.
\<close>

datatype pyval = PyNone | PyBool bool | PyDict assignment

definition to_pyval :: "assignment option \<Rightarrow> pyval" where
  "to_pyval result = (case result of None \<Rightarrow> PyNone | Some asg \<Rightarrow> PyDict asg)"

definition py_ne_False :: "assignment option \<Rightarrow> bool" where
  \<comment> \<open>\<open>result != False\<close>\<close>
  "py_ne_False result = (to_pyval result \<noteq> PyBool False)"

lemma py_ne_False_always: "py_ne_False result"
  by (cases result) (simp_all add: py_ne_False_def to_pyval_def)

definition unassigned :: "creator \<Rightarrow> variable list \<Rightarrow> nat" where
  \<comment> \<open>How many of the crossword's variables are outside a list of keys.\<close>
  "unassigned st ks = length (filter (\<lambda>v. v \<notin> set ks) (variables (crossword st)))"

lemma select_loop_member:
  "select_loop st asg vs lessP = Inr (Some (v, n)) \<Longrightarrow> v \<in> set vs \<or> lessP = Some (v, n)"
proof (induction vs arbitrary: lessP)
  case Nil
  then show ?case by simp
next
  case (Cons var vs)
  from Cons.prems obtain lessP' where
    step: "select_loop st asg vs lessP' = Inr (Some (v, n))" and
    next_pair: "lessP' = lessP \<or> (\<exists>k. lessP' = Some (var, k))"
    by (auto simp: Let_def split: sum.splits option.splits if_splits)
  from Cons.IH [OF step] next_pair show ?case by auto
qed

lemma select_unassigned_variable_member:
  assumes "select_unassigned_variable st asg = Inr (Some var, st')"
  shows "variables (crossword st') = filter (\<lambda>v. v \<notin> set (dict_keys asg)) (variables (crossword st))"
    and "var \<in> set (variables (crossword st'))"
proof -
  let ?vs = "filter (\<lambda>v. v \<notin> set (dict_keys asg)) (variables (crossword st))"
  let ?st = "st\<lparr>crossword := (crossword st)\<lparr>variables := ?vs\<rparr>\<rparr>"
  from assms obtain lessP where
    l: "select_loop ?st asg ?vs None = Inr lessP" and
    v: "map_option fst lessP = Some var" and
    s: "st' = ?st"
    by (auto simp: select_unassigned_variable_def Let_def split: sum.splits)
  from s show "variables (crossword st') = ?vs" by simp
  from v obtain n where "lessP = Some (var, n)" by (cases lessP) auto
  with l select_loop_member [of ?st asg ?vs None var n] have "var \<in> set ?vs" by simp
  with s show "var \<in> set (variables (crossword st'))" by simp
qed

lemma unassigned_select:
  assumes "select_unassigned_variable st asg = Inr (Some var, st')"
  shows "unassigned st' (var # dict_keys asg) < unassigned st (dict_keys asg)"
proof -
  let ?vs = "filter (\<lambda>v. v \<notin> set (dict_keys asg)) (variables (crossword st))"
  from select_unassigned_variable_member [OF assms]
  have vs: "variables (crossword st') = ?vs" and mem: "var \<in> set ?vs" by simp_all
  have "length (filter (\<lambda>v. v \<noteq> var) ?vs) < length ?vs"
    using mem by (intro length_filter_less [of var]) auto
  moreover have "filter (\<lambda>v. v \<notin> set (var # dict_keys asg)) ?vs = filter (\<lambda>v. v \<noteq> var) ?vs"
    by (auto intro: filter_cong)
  ultimately show ?thesis by (simp add: unassigned_def vs)
qed

lemma dict_keys_update: "set (dict_keys (AList.update k v d)) = insert k (set (dict_keys d))"
  by (simp add: dict_keys_def AList.dom_update)

text \<open>
  \<open>backtrack\<close>, and the loop \<open>for value in values\<close> as \<open>try_values\<close>. The branch after
  the test \<open>result != False\<close> holds the statement \<open>assignment.pop(var)\<close> and the rest of
  the loop.
\<close>

function backtrack :: "creator \<Rightarrow> assignment \<Rightarrow> error + (assignment option \<times> creator)"
  and try_values :: "creator \<Rightarrow> assignment \<Rightarrow> variable \<Rightarrow> string list \<Rightarrow> error + (assignment option \<times> creator)"
where
  "backtrack st asg =
     (if assignment_complete st asg then Inr (Some asg, st)
      else
        (case select_unassigned_variable st asg of
           Inl e \<Rightarrow> Inl e
         | Inr (None, st1) \<Rightarrow> Inl KeyError
         | Inr (Some var, st1) \<Rightarrow>
             (case order_domain_values st1 var asg of
                Inl e \<Rightarrow> Inl e
              | Inr vals \<Rightarrow> try_values st1 asg var vals)))"
| "try_values st asg var [] = Inr (None, st)"
| "try_values st asg var (val # rest) =
     (case backtrack st (AList.update var val asg) of
        Inl e \<Rightarrow> Inl e
      | Inr (result, st') \<Rightarrow>
          if py_ne_False result then Inr (result, st')
          else try_values st' (AList.delete var (AList.update var val asg)) var rest)"
  by pat_completeness auto
termination
  by (relation "measure (\<lambda>a. case a of
          Inl (st, asg) \<Rightarrow> 2 * unassigned st (dict_keys asg) + 1
        | Inr (st, asg, var, vals) \<Rightarrow> 2 * unassigned st (var # dict_keys asg) + 2)")
     (auto simp: py_ne_False_always unassigned_def dict_keys_update
           dest: unassigned_select)

definition solve :: "creator \<Rightarrow> error + (assignment option \<times> creator)" where
  \<comment> \<open>The value \<open>ac3\<close> returns is not looked at.\<close>
  "solve st =
     (let st1 = enforce_node_consistency st in
      case ac3 st1 None of
        Inl e \<Rightarrow> Inl e
      | Inr (arc_consistent, st2) \<Rightarrow> backtrack st2 [])"


subsection \<open>What a caller observes\<close>

definition outcome :: "error + ('a \<times> creator) \<Rightarrow> error + 'a" where
  \<comment> \<open>The value returned, or the exception raised.\<close>
  "outcome r = (case r of Inl e \<Rightarrow> Inl e | Inr (v, st) \<Rightarrow> Inr v)"

definition variables_after :: "error + ('a \<times> creator) \<Rightarrow> error + variable list" where
  \<comment> \<open>The crossword's variable set once the call has returned.\<close>
  "variables_after r = (case r of Inl e \<Rightarrow> Inl e | Inr (v, st) \<Rightarrow> Inr (variables (crossword st)))"

definition solve_again :: "creator \<Rightarrow> error + assignment option" where
  \<comment> \<open>The second of two calls \<open>creator.solve()\<close> on one object.\<close>
  "solve_again st = (case solve st of Inl e \<Rightarrow> Inl e | Inr (r, st') \<Rightarrow> outcome (solve st'))"

definition solve_again_fresh :: "crossword \<Rightarrow> error + assignment option" where
  \<comment> \<open>\<open>CrosswordCreator(crossword).solve()\<close> twice, on one \<open>Crossword\<close> object.\<close>
  "solve_again_fresh cw =
     (case solve (init cw) of
        Inl e \<Rightarrow> Inl e
      | Inr (r, st') \<Rightarrow> outcome (solve (init (crossword st'))))"

subsection \<open>Problem instances\<close>

text \<open>
  Two slots of two cells in rows 0 and 2 that do not cross, and one word:
  \<^verbatim>\<open>
  __
  ##
  __
  \<close>
\<close>

definition A2 :: variable where "A2 = Variable 0 0 ACROSS 2"
definition B2 :: variable where "B2 = Variable 2 0 ACROSS 2"
definition C2 :: variable where "C2 = Variable 4 0 ACROSS 2"

definition cw_rows :: crossword where
  "cw_rows = \<lparr>variables = [A2, B2], words = [''AB''],
               overlaps = (\<lambda>(v, w). if v = w then None else Some None)\<rparr>"

text \<open>The same with a third row and two words.\<close>

definition cw_rows3 :: crossword where
  "cw_rows3 = \<lparr>variables = [A2, B2, C2], words = [''AB'', ''CD''],
                overlaps = (\<lambda>(v, w). if v = w then None else Some None)\<rparr>"

text \<open>
  Five slots: \<open>P_across\<close> crosses \<open>P_down\<close> only, \<open>Q_across\<close> crosses \<open>Q_down\<close> and \<open>Q_down2\<close>.
  \<^verbatim>\<open>
  __#___
  _##_#_
  \<close>
\<close>

definition P_across :: variable where "P_across = Variable 0 0 ACROSS 2"
definition P_down :: variable where "P_down = Variable 0 0 DOWN 2"
definition Q_across :: variable where "Q_across = Variable 0 3 ACROSS 3"
definition Q_down :: variable where "Q_down = Variable 0 3 DOWN 2"
definition Q_down2 :: variable where "Q_down2 = Variable 0 5 DOWN 2"

definition cw_degree :: crossword where
  "cw_degree = \<lparr>variables = [P_across, Q_across, P_down, Q_down, Q_down2], words = [''AB'', ''ABA''],
     overlaps = (\<lambda>(v, w). if v = w then None
        else Some (map_of [((P_across, P_down), (0, 0)), ((P_down, P_across), (0, 0)),
                           ((Q_across, Q_down), (0, 0)), ((Q_down, Q_across), (0, 0)),
                           ((Q_across, Q_down2), (2, 0)), ((Q_down2, Q_across), (0, 2))] (v, w)))\<rparr>"

text \<open>
  A slot of two cells across and one of three cells down, sharing their first cell:
  \<^verbatim>\<open>
  __
  _#
  _#
  \<close>
\<close>

definition H_slot :: variable where "H_slot = Variable 0 0 ACROSS 2"
definition V_slot :: variable where "V_slot = Variable 0 0 DOWN 3"

definition cw_cross :: "variable list \<Rightarrow> string list \<Rightarrow> crossword" where
  "cw_cross vs ws = \<lparr>variables = vs, words = ws,
     overlaps = (\<lambda>(v, w). if v = w then None
        else Some (map_of [((H_slot, V_slot), (0, 0)), ((V_slot, H_slot), (0, 0))] (v, w)))\<rparr>"


subsection \<open>Notions used in the statements\<close>

definition indexable :: "string \<Rightarrow> int \<Rightarrow> bool" where
  \<comment> \<open>\<open>word[k]\<close> does not raise.\<close>
  "indexable word k = (case py_index word k of Inl e \<Rightarrow> False | Inr c \<Rightarrow> True)"

definition letters_agree :: "int \<times> int \<Rightarrow> string \<Rightarrow> string \<Rightarrow> bool" where
  \<comment> \<open>\<open>wordX[overlap[0]] == wordY[overlap[1]]\<close>, both letters being there.\<close>
  "letters_agree overlap wordX wordY =
     (case py_index wordX (fst overlap) of
        Inl e \<Rightarrow> False
      | Inr cx \<Rightarrow> (case py_index wordY (snd overlap) of Inl e \<Rightarrow> False | Inr cy \<Rightarrow> cx = cy))"

definition overlap_indexable :: "(int \<times> int) option \<Rightarrow> string list \<Rightarrow> string list \<Rightarrow> bool" where
  \<comment> \<open>Every word of the two domains has a letter at its overlap index.\<close>
  "overlap_indexable ov wordsX wordsY =
     (case ov of
        None \<Rightarrow> True
      | Some overlap \<Rightarrow>
          list_all (\<lambda>w. indexable w (fst overlap)) wordsX
          \<and> list_all (\<lambda>w. indexable w (snd overlap)) wordsY)"

text \<open>The crossing pair with three words, node consistency enforced; \<open>V_slot\<close> is iterated first.\<close>

definition st_cross :: creator where
  "st_cross = enforce_node_consistency (init (cw_cross [V_slot, H_slot] [''AB'', ''XY'', ''ACE'']))"

definition wf_crossword :: "crossword \<Rightarrow> bool" where
  \<comment> \<open>The contract on the instance: an overlap is stored for both orders of a pair, with
      the indices swapped, and its indices lie within the lengths of the two slots.\<close>
  "wf_crossword cw =
     list_all (\<lambda>v. list_all (\<lambda>w.
         (case overlaps cw (v, w) of
            Some (Some (a, b)) \<Rightarrow>
              overlaps cw (w, v) = Some (Some (b, a))
              \<and> 0 \<le> a \<and> a < var_length v \<and> 0 \<le> b \<and> b < var_length w
          | _ \<Rightarrow> True))
       (variables cw)) (variables cw)"

definition node_consistent :: "creator \<Rightarrow> bool" where
  "node_consistent st =
     list_all (\<lambda>(var, ws). list_all (\<lambda>word. int (length word) = var_length var) ws) (domains st)"

definition solver_inv :: "crossword \<Rightarrow> creator \<Rightarrow> bool" where
  \<comment> \<open>What holds of the solver from node consistency until the search starts.\<close>
  "solver_inv cw st =
     (crossword st = cw \<and> dict_keys (domains st) = variables cw \<and> node_consistent st)"

definition domain_size :: "creator \<Rightarrow> variable \<Rightarrow> nat" where
  "domain_size st var = (case map_of (domains st) var of None \<Rightarrow> 0 | Some ws \<Rightarrow> length ws)"

text \<open>The crossing pair with no word for \<open>V_slot\<close> that starts like the word of \<open>H_slot\<close>.\<close>

definition cw_fail :: crossword where
  "cw_fail = cw_cross [H_slot, V_slot] [''AB'', ''XYZ'']"

section \<open>The claims\<close>

subsection \<open>Facts shared by the proofs\<close>

lemma indexableE: "indexable w k \<Longrightarrow> \<exists>c. py_index w k = Inr c"
  by (auto simp: indexable_def split: sum.splits)

lemma indexable_in_range: "0 \<le> k \<Longrightarrow> k < int (length w) \<Longrightarrow> indexable w k"
  by (simp add: indexable_def py_index_def)

lemma dict_get_key: "dict_get d k = Inr v \<Longrightarrow> (k, v) \<in> set d"
  by (auto simp: dict_get_def split: option.splits dest: map_of_SomeD)


subsection \<open>C1: what \<open>solve\<close> returns\<close>

text \<open>
  C1 asks that an assignment returned by \<open>solve\<close> is complete and consistent, with
  pairwise distinct words. On two rows and the vocabulary \<open>{AB}\<close> the code returns
  the assignment that gives \<open>AB\<close> to both variables.
\<close>

theorem solve_returns_reused_word:
  "outcome (solve (init cw_rows)) = Inr (Some [(A2, ''AB''), (B2, ''AB'')]) \<and> A2 \<noteq> B2"
  by code_simp

subsection \<open>C2: \<open>backtrack\<close> does not test candidates\<close>

text \<open>
  C2 asks that \<open>backtrack\<close> recurses into a tentative assignment only when it passes
  the consistency predicate. Called with \<open>A2\<close> already holding \<open>AB\<close>, the code gives
  \<open>AB\<close> to \<open>B2\<close> as well and returns that assignment, which \<open>consistent\<close> itself
  rejects.
\<close>

theorem backtrack_accepts_inconsistent_candidate:
  "outcome (backtrack (enforce_node_consistency (init cw_rows)) [(A2, ''AB'')])
     = Inr (Some [(A2, ''AB''), (B2, ''AB'')])
   \<and> consistent (enforce_node_consistency (init cw_rows)) [(A2, ''AB''), (B2, ''AB'')]
     = Inr (Some False)"
  by code_simp

text \<open>
  The loop over the candidates never reaches its second round: the test
  \<open>result != False\<close> holds for every result, \<open>None\<close> included.
\<close>

lemma try_values_first_only:
  "try_values st asg var (val # rest) = backtrack st (AList.update var val asg)"
  by (simp add: py_ne_False_always split: sum.splits prod.splits)

subsection \<open>C3: \<open>consistent\<close> looks at the first item only\<close>

text \<open>
  C3 asks that \<open>consistent\<close> returns \<open>True\<close> iff no constraint is violated over all pairs
  of assigned variables. The code returns from inside the outer loop: with three
  rows, the second and third variable may hold the same word, or the second a word of
  the wrong length, and the result is \<open>True\<close>.
\<close>

theorem consistent_checks_first_item_only:
  "consistent (init cw_rows3) [(A2, ''AB''), (B2, ''CD''), (C2, ''CD'')] = Inr (Some True)
   \<and> B2 \<noteq> C2
   \<and> consistent (init cw_rows3) [(A2, ''AB''), (B2, ''XYZ'')] = Inr (Some True)
   \<and> int (length ''XYZ'') \<noteq> var_length B2"
  by code_simp

subsection \<open>C4: \<open>revise\<close>\<close>

lemma revise_wordY_indexable:
  "list_all (\<lambda>w. indexable w k) ys \<Longrightarrow>
   revise_wordY c k ys = Inr (\<exists>wy \<in> set ys. py_index wy k = Inr c)"
proof (induction ys)
  case Nil
  then show ?case by simp
next
  case (Cons wordY ys)
  then obtain cy where cy: "py_index wordY k = Inr cy"
    by (auto dest: indexableE)
  from Cons have "revise_wordY c k ys = Inr (\<exists>wy \<in> set ys. py_index wy k = Inr c)"
    by simp
  with cy show ?case by auto
qed

lemma revise_wordX_indexable:
  assumes "list_all (\<lambda>w. indexable w (fst overlap)) xs"
    and "list_all (\<lambda>w. indexable w (snd overlap)) ys"
  shows "revise_wordX overlap (Inr ys) xs
           = Inr (filter (\<lambda>wx. \<exists>wy \<in> set ys. letters_agree overlap wx wy) xs)"
  using assms(1)
proof (induction xs)
  case Nil
  then show ?case by simp
next
  case (Cons wordX xs)
  then obtain cx where cx: "py_index wordX (fst overlap) = Inr cx"
    by (auto dest: indexableE)
  have inner: "revise_wordY cx (snd overlap) ys
                 = Inr (\<exists>wy \<in> set ys. py_index wy (snd overlap) = Inr cx)"
    by (rule revise_wordY_indexable [OF assms(2)])
  have "letters_agree overlap wordX wy = (py_index wy (snd overlap) = Inr cx)" for wy
    by (cases "py_index wy (snd overlap)") (auto simp: letters_agree_def cx)
  then have agree: "(\<exists>wy \<in> set ys. letters_agree overlap wordX wy)
                 = (\<exists>wy \<in> set ys. py_index wy (snd overlap) = Inr cx)"
    by simp
  from Cons have "revise_wordX overlap (Inr ys) xs
           = Inr (filter (\<lambda>wx. \<exists>wy \<in> set ys. letters_agree overlap wx wy) xs)"
    by simp
  with cx inner agree show ?case by simp
qed

lemma dict_get_update:
  "dict_get (AList.update k v d) z = (if z = k then Inr v else dict_get d z)"
  by (simp add: dict_get_def update_conv')

text \<open>
  C4. For distinct variables \<open>x\<close> and \<open>y\<close> with domains: when the pair has no overlap,
  \<open>revise\<close> changes nothing and returns \<open>False\<close>; otherwise the domain of \<open>x\<close> becomes
  exactly its words that agree, at the overlap indices, with at least one word of the
  domain of \<open>y\<close>, no other domain changes, and \<open>True\<close> is returned iff the domain of \<open>x\<close>
  shrank. The pair is a key of \<open>overlaps\<close> and the words of the two domains have a
  letter at the overlap indices, as they do on a well-formed instance once node
  consistency is enforced; otherwise the code raises.
\<close>

theorem revise_spec:
  assumes "x \<noteq> y"
    and dx: "dict_get (domains st) x = Inr wordsX"
    and dy: "dict_get (domains st) y = Inr wordsY"
    and ov: "overlaps (crossword st) (x, y) = Some ov"
    and ix: "overlap_indexable ov wordsX wordsY"
  shows "\<exists>revised st'. revise st x y = Inr (revised, st')
           \<and> crossword st' = crossword st
           \<and> (\<forall>z. z \<noteq> x \<longrightarrow> dict_get (domains st') z = dict_get (domains st) z)
           \<and> dict_get (domains st') y = Inr wordsY
           \<and> (case ov of
                None \<Rightarrow> \<not> revised \<and> st' = st
              | Some overlap \<Rightarrow>
                  (\<exists>wordsX'. dict_get (domains st') x = Inr wordsX'
                     \<and> set wordsX' = {wx \<in> set wordsX. \<exists>wy \<in> set wordsY. letters_agree overlap wx wy}
                     \<and> (revised \<longleftrightarrow> set wordsX' \<subset> set wordsX)))"
proof (cases ov)
  case None
  with ov dy show ?thesis by (auto simp: revise_def)
next
  case (Some overlap)
  let ?r = "filter (\<lambda>wx. \<exists>wy \<in> set wordsY. letters_agree overlap wx wy) wordsX"
  from ix Some have loop: "revise_wordX overlap (Inr wordsY) wordsX = Inr ?r"
    by (simp add: overlap_indexable_def revise_wordX_indexable)
  show ?thesis
  proof (cases "set ?r = set wordsX")
    case True
    with ov Some dx dy loop have "revise st x y = Inr (False, st)"
      by (simp add: revise_def)
    moreover have "set ?r = {wx \<in> set wordsX. \<exists>wy \<in> set wordsY. letters_agree overlap wx wy}"
      by auto
    ultimately show ?thesis using True Some dx dy by auto
  next
    case False
    let ?st = "st\<lparr>domains := AList.update x ?r (domains st)\<rparr>"
    from False ov Some dx dy loop have "revise st x y = Inr (True, ?st)"
      by (simp add: revise_def)
    moreover have "set ?r \<subset> set wordsX" using False by auto
    moreover have "dict_get (domains ?st) x = Inr ?r" by (simp add: dict_get_update)
    moreover have "dict_get (domains ?st) y = Inr wordsY"
      using \<open>x \<noteq> y\<close> dy by (simp add: dict_get_update)
    moreover have "set ?r = {wx \<in> set wordsX. \<exists>wy \<in> set wordsY. letters_agree overlap wx wy}"
      by auto
    ultimately show ?thesis using Some by (auto simp: dict_get_update)
  qed
qed

theorem revise_spec_witness:
  "H_slot \<noteq> V_slot
   \<and> dict_get (domains st_cross) H_slot = Inr [''AB'', ''XY'']
   \<and> dict_get (domains st_cross) V_slot = Inr [''ACE'']
   \<and> overlaps (crossword st_cross) (H_slot, V_slot) = Some (Some (0, 0))
   \<and> overlap_indexable (Some (0, 0)) [''AB'', ''XY''] [''ACE'']
   \<and> (\<exists>revised st'. revise st_cross H_slot V_slot = Inr (revised, st')
         \<and> crossword st' = crossword st_cross
         \<and> (\<forall>z. z \<noteq> H_slot \<longrightarrow> dict_get (domains st') z = dict_get (domains st_cross) z)
         \<and> dict_get (domains st') V_slot = Inr [''ACE'']
         \<and> (case Some (0, 0) of
              None \<Rightarrow> \<not> revised \<and> st' = st_cross
            | Some overlap \<Rightarrow>
                (\<exists>wordsX'. dict_get (domains st') H_slot = Inr wordsX'
                   \<and> set wordsX' = {wx \<in> set [''AB'', ''XY'']. \<exists>wy \<in> set [''ACE'']. letters_agree overlap wx wy}
                   \<and> (revised \<longleftrightarrow> set wordsX' \<subset> set [''AB'', ''XY'']))))"
proof -
  have h1: "H_slot \<noteq> V_slot" by code_simp
  have h2: "dict_get (domains st_cross) H_slot = Inr [''AB'', ''XY'']" by code_simp
  have h3: "dict_get (domains st_cross) V_slot = Inr [''ACE'']" by code_simp
  have h4: "overlaps (crossword st_cross) (H_slot, V_slot) = Some (Some (0, 0))" by code_simp
  have h5: "overlap_indexable (Some (0, 0)) [''AB'', ''XY''] [''ACE'']" by code_simp
  show ?thesis
    by (intro conjI h1 h2 h3 h4 h5 revise_spec [OF h1 h2 h3 h4 h5])
qed

subsection \<open>C5: the arcs \<open>ac3\<close> puts back\<close>

lemma ac3_enqueue_append:
  "\<exists>new. ac3_enqueue x zs arcs = arcs @ new \<and> distinct new
         \<and> set new = {(z, x) | z. z \<in> set zs \<and> (z, x) \<notin> set arcs}"
proof (induction zs arbitrary: arcs)
  case Nil
  then show ?case by simp
next
  case (Cons z zs)
  show ?case
  proof (cases "(z, x) \<in> set arcs")
    case True
    from Cons.IH [of arcs] obtain new where
      "ac3_enqueue x zs arcs = arcs @ new" "distinct new"
      "set new = {(z, x) | z. z \<in> set zs \<and> (z, x) \<notin> set arcs}" by blast
    with True show ?thesis by (intro exI [of _ new]) auto
  next
    case False
    from Cons.IH [of "arcs @ [(z, x)]"] obtain new where
      new: "ac3_enqueue x zs (arcs @ [(z, x)]) = (arcs @ [(z, x)]) @ new" "distinct new"
      "set new = {(z', x) | z'. z' \<in> set zs \<and> (z', x) \<notin> set (arcs @ [(z, x)])}" by blast
    with False show ?thesis by (intro exI [of _ "(z, x) # new"]) auto
  qed
qed

text \<open>
  C5 says that the arcs put back are those of the neighbors of \<open>x\<close> other than \<open>y\<close>.
  The loop has no test for \<open>y\<close>: in \<open>ac3()\<close> on \<open>st_cross\<close> the arc \<open>(V_slot, H_slot)\<close> is taken
  first and revises nothing, then \<open>(H_slot, V_slot)\<close> is taken from a queue that is left empty,
  \<open>revise(H_slot, V_slot)\<close> removes \<open>XY\<close> from the domain of \<open>H_slot\<close>, and the arc \<open>(V_slot, H_slot)\<close>, whose
  first component is \<open>y\<close>, is appended.
\<close>

theorem ac3_enqueues_arc_from_y:
  "all_arcs st_cross = [(V_slot, H_slot), (H_slot, V_slot)]
   \<and> outcome (revise st_cross V_slot H_slot) = Inr False
   \<and> (case revise st_cross H_slot V_slot of
         Inl e \<Rightarrow> False
       | Inr (revised, st') \<Rightarrow>
           revised \<and> dict_get (domains st') H_slot = Inr [''AB'']
           \<and> ac3_enqueue H_slot (neighbors (crossword st') H_slot) [] = [(V_slot, H_slot)])"
  by code_simp

text \<open>
  C5, amended. Whenever \<open>revise(x, y)\<close> reports a change and leaves the domain of \<open>x\<close>
  non-empty, \<open>ac3\<close> goes on with the pending arcs followed by exactly the arcs
  \<open>(z, x)\<close>, for the neighbors \<open>z\<close> of \<open>x\<close>, that are not pending, each once; the
  neighbor \<open>y\<close> is not left out.
\<close>

theorem ac3_requeue:
  assumes "revise st x y = Inr (True, st')"
    and "dict_get (domains st') x = Inr wordsX"
    and "wordsX \<noteq> []"
  shows "\<exists>new. ac3_loop st ((x, y) # arcs) = ac3_loop st' (arcs @ new)
           \<and> distinct new
           \<and> set new = {(z, x) | z. z \<in> set (neighbors (crossword st') x) \<and> (z, x) \<notin> set arcs}"
proof -
  from ac3_enqueue_append [of x "neighbors (crossword st') x" arcs] obtain new where
    new: "ac3_enqueue x (neighbors (crossword st') x) arcs = arcs @ new" "distinct new"
    "set new = {(z, x) | z. z \<in> set (neighbors (crossword st') x) \<and> (z, x) \<notin> set arcs}"
    by blast
  from assms new(1) have "ac3_loop st ((x, y) # arcs) = ac3_loop st' (arcs @ new)"
    by simp
  with new(2,3) show ?thesis by blast
qed

theorem ac3_requeue_witness:
  "\<exists>st'. revise st_cross H_slot V_slot = Inr (True, st')
       \<and> dict_get (domains st') H_slot = Inr [''AB'']
       \<and> [''AB''] \<noteq> ([] :: string list)
       \<and> (\<exists>new. ac3_loop st_cross [(H_slot, V_slot)] = ac3_loop st' ([] @ new)
             \<and> distinct new
             \<and> set new = {(z, H_slot) | z. z \<in> set (neighbors (crossword st') H_slot) \<and> (z, H_slot) \<notin> set []})"
proof -
  have "(case revise st_cross H_slot V_slot of
           Inl e \<Rightarrow> False
         | Inr (revised, st') \<Rightarrow> revised \<and> dict_get (domains st') H_slot = Inr [''AB''])"
    by code_simp
  then obtain st' where
    r: "revise st_cross H_slot V_slot = Inr (True, st')" and
    d: "dict_get (domains st') H_slot = Inr [''AB'']"
    by (auto split: sum.splits)
  have n: "[''AB''] \<noteq> ([] :: string list)" by simp
  from r d n ac3_requeue [OF r d n, of "[]"] show ?thesis by blast
qed

subsection \<open>C6: a domain made empty by \<open>ac3\<close>\<close>

lemma solver_inv_node_consistency:
  "dict_keys (domains st) = variables (crossword st) \<Longrightarrow>
   solver_inv (crossword st) (enforce_node_consistency st)"
  by (auto simp: solver_inv_def enforce_node_consistency_def dict_keys_def node_consistent_def
        list_all_iff comp_def case_prod_beta split: prod.splits)

lemma solver_inv_init: "solver_inv cw (enforce_node_consistency (init cw))"
  using solver_inv_node_consistency [of "init cw"]
  by (simp add: init_def dict_keys_def comp_def)

lemma dict_keys_update_key:
  "dict_get d k = Inr v \<Longrightarrow> dict_keys (AList.update k v' d) = dict_keys d"
  by (auto simp: dict_keys_def update_keys dest!: dict_get_key intro: rev_image_eqI)

lemma list_all_update:
  "list_all Q d \<Longrightarrow> Q (k, v) \<Longrightarrow> list_all Q (AList.update k v d)"
  by (induction d) auto

lemma revise_solver_inv:
  assumes "revise st x y = Inr (revised, st')" and "solver_inv cw st"
  shows "solver_inv cw st'"
proof (cases revised)
  case False
  with assms(1) have "st' = st" by (auto dest: revise_False_state)
  with assms(2) show ?thesis by simp
next
  case True
  with assms(1) obtain overlap wordsX r where
    dx: "dict_get (domains st) x = Inr wordsX" and
    r: "revise_wordX overlap (dict_get (domains st) y) wordsX = Inr r" and
    st': "st' = st\<lparr>domains := AList.update x r (domains st)\<rparr>"
    by (auto simp: revise_def split: option.splits sum.splits if_splits)
  from revise_wordX_filter [OF r] have sub: "set r \<subseteq> set wordsX" by auto
  from dict_get_key [OF dx] assms(2)
  have "list_all (\<lambda>word. int (length word) = var_length x) wordsX"
    by (auto simp: solver_inv_def node_consistent_def list_all_iff)
  with sub have "list_all (\<lambda>word. int (length word) = var_length x) r"
    by (auto simp: list_all_iff)
  with assms(2) have "node_consistent st'"
    by (simp add: st' solver_inv_def node_consistent_def list_all_update)
  with assms(2) dx show ?thesis
    by (simp add: st' solver_inv_def dict_keys_update_key)
qed

lemma ac3_loop_solver_inv:
  "ac3_loop st arcs = Inr (b, st') \<Longrightarrow> solver_inv cw st \<Longrightarrow> solver_inv cw st'"
proof (induction st arcs rule: ac3_loop.induct)
  case (1 st)
  then show ?case by simp
next
  case (2 st x y arcs)
  from "2.prems"(1) obtain revised st1 where
    rv: "revise st x y = Inr (revised, st1)"
    by (auto split: sum.splits)
  have inv1: "solver_inv cw st1" by (rule revise_solver_inv [OF rv "2.prems"(2)])
  show ?case
  proof (cases revised)
    case False
    with rv "2.prems"(1) have "ac3_loop st1 arcs = Inr (b, st')" by simp
    from "2.IH"(2) [OF rv refl False this inv1] show ?thesis .
  next
    case True
    with rv "2.prems"(1) obtain wordsX where
      dx: "dict_get (domains st1) x = Inr wordsX" by (auto split: sum.splits)
    show ?thesis
    proof (cases "length wordsX = 0")
      case True
      with \<open>revised\<close> rv dx "2.prems"(1) inv1 show ?thesis by simp
    next
      case False
      with \<open>revised\<close> rv dx "2.prems"(1)
      have "ac3_loop st1 (ac3_enqueue x (neighbors (crossword st1) x) arcs) = Inr (b, st')"
        by simp
      from "2.IH"(1) [OF rv refl \<open>revised\<close> dx False this inv1]
      show ?thesis .
    qed
  qed
qed

lemma ac3_loop_False_empty:
  "ac3_loop st arcs = Inr (False, st') \<Longrightarrow> \<exists>x. dict_get (domains st') x = Inr []"
proof (induction st arcs rule: ac3_loop.induct)
  case (1 st)
  then show ?case by simp
next
  case (2 st x y arcs)
  from "2.prems"(1) obtain revised st1 where
    rv: "revise st x y = Inr (revised, st1)"
    by (auto split: sum.splits)
  show ?case
  proof (cases revised)
    case False
    with rv "2.prems"(1) have "ac3_loop st1 arcs = Inr (False, st')" by simp
    from "2.IH"(2) [OF rv refl False this] show ?thesis .
  next
    case True
    with rv "2.prems"(1) obtain wordsX where
      dx: "dict_get (domains st1) x = Inr wordsX" by (auto split: sum.splits)
    show ?thesis
    proof (cases "length wordsX = 0")
      case True
      with \<open>revised\<close> rv dx "2.prems"(1) have "st' = st1" by simp
      with dx True show ?thesis by auto
    next
      case False
      with \<open>revised\<close> rv dx "2.prems"(1)
      have "ac3_loop st1 (ac3_enqueue x (neighbors (crossword st1) x) arcs) = Inr (False, st')"
        by simp
      from "2.IH"(1) [OF rv refl \<open>revised\<close> dx False this]
      show ?thesis .
    qed
  qed
qed

lemma odv_wordY_ok:
  assumes "indexable wordX (fst overlap)"
    and "list_all (\<lambda>w. indexable w (snd overlap)) ys"
  shows "\<exists>e'. odv_wordY wordX (Some overlap) ys e = Inr e'"
  using assms(2)
proof (induction ys arbitrary: e)
  case Nil
  then show ?case by simp
next
  case (Cons wordY ys)
  from assms(1) obtain cx where cx: "py_index wordX (fst overlap) = Inr cx"
    by (auto dest: indexableE)
  from Cons.prems obtain cy where cy: "py_index wordY (snd overlap) = Inr cy"
    by (auto dest: indexableE)
  from Cons.prems have "list_all (\<lambda>w. indexable w (snd overlap)) ys" by simp
  from Cons.IH [OF this] cx cy show ?case by simp
qed

lemma solver_inv_domain:
  assumes "solver_inv cw st" and "var \<in> set (variables cw)"
  shows "\<exists>ws. dict_get (domains st) var = Inr ws
           \<and> list_all (\<lambda>word. int (length word) = var_length var) ws"
proof -
  from assms have "set (map fst (domains st)) = set (variables cw)"
    by (simp add: solver_inv_def dict_keys_def)
  with assms(2) have "var \<in> fst ` set (domains st)" by simp
  then obtain ws where g: "dict_get (domains st) var = Inr ws"
    by (cases "map_of (domains st) var") (auto simp: dict_get_def map_of_eq_None_iff)
  from dict_get_key [OF g] assms(1)
  have "list_all (\<lambda>word. int (length word) = var_length var) ws"
    by (auto simp: solver_inv_def node_consistent_def list_all_iff)
  with g show ?thesis by blast
qed

lemma neighbors_overlap:
  assumes "wf_crossword cw" and "var \<in> set (variables cw)" and "y \<in> set (neighbors cw var)"
  shows "y \<in> set (variables cw)
         \<and> (\<exists>a b. overlaps cw (var, y) = Some (Some (a, b))
               \<and> 0 \<le> a \<and> a < var_length var \<and> 0 \<le> b \<and> b < var_length y)"
proof -
  from assms(3) have y: "y \<in> set (variables cw)" and "has_overlap cw y var"
    by (simp_all add: neighbors_def)
  then obtain b a where o: "overlaps cw (y, var) = Some (Some (b, a))"
    by (auto simp: has_overlap_def split: option.splits)
  from assms(1) y assms(2) have
    "case overlaps cw (y, var) of
       Some (Some (a, b)) \<Rightarrow>
         overlaps cw (var, y) = Some (Some (b, a))
         \<and> 0 \<le> a \<and> a < var_length y \<and> 0 \<le> b \<and> b < var_length var
     | _ \<Rightarrow> True"
    by (simp add: wf_crossword_def list_all_iff)
  with o y show ?thesis by simp
qed

lemma odv_neighbors_ok:
  assumes wf: "wf_crossword cw" and inv: "solver_inv cw st"
    and var: "var \<in> set (variables cw)"
    and wx: "int (length wordX) = var_length var"
    and ns: "set ns \<subseteq> set (neighbors cw var)"
  shows "\<exists>e'. odv_neighbors st var asg wordX ns e = Inr e'"
  using ns
proof (induction ns arbitrary: e)
  case Nil
  then show ?case by simp
next
  case (Cons y ns)
  from Cons.prems have rest: "set ns \<subseteq> set (neighbors cw var)" by simp
  show ?case
  proof (cases "y \<in> set (dict_keys asg)")
    case True
    with Cons.IH [OF rest] show ?thesis by simp
  next
    case False
    from Cons.prems have "y \<in> set (neighbors cw var)" by simp
    from neighbors_overlap [OF wf var this] obtain a b where
      y: "y \<in> set (variables cw)" and
      o: "overlaps cw (var, y) = Some (Some (a, b))" and
      ab: "0 \<le> a" "a < var_length var" "0 \<le> b" "b < var_length y"
      by blast
    from solver_inv_domain [OF inv y] obtain wordsY where
      dy: "dict_get (domains st) y = Inr wordsY" and
      ly: "list_all (\<lambda>word. int (length word) = var_length y) wordsY"
      by blast
    have "indexable wordX (fst (a, b))"
      using ab wx by (simp add: indexable_in_range)
    moreover have "list_all (\<lambda>w. indexable w (snd (a, b))) wordsY"
      using ab ly by (auto simp: list_all_iff intro: indexable_in_range)
    ultimately obtain e1 where "odv_wordY wordX (Some (a, b)) wordsY e = Inr e1"
      using odv_wordY_ok by blast
    moreover from inv have "crossword st = cw" by (simp add: solver_inv_def)
    ultimately show ?thesis
      using False o dy Cons.IH [OF rest, of e1] by simp
  qed
qed

lemma odv_words_ok:
  assumes wf: "wf_crossword cw" and inv: "solver_inv cw st"
    and var: "var \<in> set (variables cw)"
    and xs: "list_all (\<lambda>word. int (length word) = var_length var) xs"
  shows "\<exists>domainOrder. odv_words st var asg xs = Inr domainOrder \<and> length domainOrder = length xs"
  using xs
proof (induction xs)
  case Nil
  then show ?case by simp
next
  case (Cons wordX xs)
  from inv have cw: "crossword st = cw" by (simp add: solver_inv_def)
  from Cons.prems have "int (length wordX) = var_length var" by simp
  from odv_neighbors_ok [OF wf inv var this subset_refl, of asg 0]
  obtain e' where "odv_neighbors st var asg wordX (neighbors cw var) 0 = Inr e'" by blast
  moreover from Cons obtain domainOrder where
    "odv_words st var asg xs = Inr domainOrder" "length domainOrder = length xs" by auto
  ultimately show ?case by (simp add: cw)
qed

lemma order_domain_values_ok:
  assumes "wf_crossword cw" and "solver_inv cw st" and "var \<in> set (variables cw)"
  shows "\<exists>vals. order_domain_values st var asg = Inr vals \<and> length vals = domain_size st var"
proof -
  from solver_inv_domain [OF assms(2,3)] obtain ws where
    g: "dict_get (domains st) var = Inr ws" and
    l: "list_all (\<lambda>word. int (length word) = var_length var) ws" by blast
  from odv_words_ok [OF assms l, of asg] obtain domainOrder where
    "odv_words st var asg ws = Inr domainOrder" "length domainOrder = length ws" by blast
  moreover from g have "domain_size st var = length ws"
    by (auto simp: domain_size_def dict_get_def split: option.splits)
  ultimately show ?thesis using g by (simp add: order_domain_values_def)
qed

lemma select_loop_least:
  assumes "\<forall>var \<in> set vs. \<exists>vals. order_domain_values st var asg = Inr vals \<and> length vals = cnt var"
  shows "\<exists>r. select_loop st asg vs lessP = Inr r
           \<and> (vs \<noteq> [] \<longrightarrow> r \<noteq> None)
           \<and> (\<forall>lv ln. lessP = Some (lv, ln) \<longrightarrow> (\<exists>v n. r = Some (v, n) \<and> n \<le> ln))
           \<and> (\<forall>v n. r = Some (v, n) \<longrightarrow>
                 (lessP = Some (v, n) \<or> (v \<in> set vs \<and> n = cnt v))
                 \<and> (\<forall>var \<in> set vs. n \<le> cnt var))"
  using assms
proof (induction vs arbitrary: lessP)
  case Nil
  show ?case by (cases lessP) auto
next
  case (Cons var vs)
  from Cons.prems obtain vals where
    v: "order_domain_values st var asg = Inr vals" "length vals = cnt var" by auto
  from Cons.prems have rest:
    "\<forall>var \<in> set vs. \<exists>vals. order_domain_values st var asg = Inr vals \<and> length vals = cnt var"
    by simp
  define bigger where "bigger lessVar =
    (set (neighbors (crossword st) lessVar) \<subset> set (neighbors (crossword st) var))" for lessVar
  define lessP' where "lessP' =
    (case lessP of
       None \<Rightarrow> Some (var, cnt var)
     | Some (lessVar, lessValues) \<Rightarrow>
         if cnt var < lessValues then Some (var, cnt var)
         else if cnt var = lessValues then
           (if bigger lessVar then Some (var, cnt var) else lessP)
         else lessP)"
  have step: "select_loop st asg (var # vs) lessP = select_loop st asg vs lessP'"
  proof (cases lessP)
    case None
    with v show ?thesis by (simp add: lessP'_def)
  next
    case (Some p)
    obtain lessVar lessValues where p: "p = (lessVar, lessValues)" by (cases p)
    with Some v show ?thesis by (simp add: lessP'_def bigger_def)
  qed
  have l1: "lessP' = Some (var, cnt var)
            \<or> (lessP' = lessP \<and> (\<exists>lv ln. lessP = Some (lv, ln) \<and> ln \<le> cnt var))"
  proof (cases lessP)
    case None
    then show ?thesis by (simp add: lessP'_def)
  next
    case (Some p)
    obtain lessVar lessValues where p: "p = (lessVar, lessValues)" by (cases p)
    with Some show ?thesis by (simp add: lessP'_def)
  qed
  have l2: "\<exists>lv' ln'. lessP' = Some (lv', ln') \<and> ln' \<le> ln" if "lessP = Some (lv, ln)" for lv ln
    using that by (simp add: lessP'_def)
  from l1 obtain lv' ln' where l3: "lessP' = Some (lv', ln')" and l4: "ln' \<le> cnt var"
    by auto
  from Cons.IH [OF rest, of lessP'] obtain r where
    R: "select_loop st asg vs lessP' = Inr r
        \<and> (vs \<noteq> [] \<longrightarrow> r \<noteq> None)
        \<and> (\<forall>lv ln. lessP' = Some (lv, ln) \<longrightarrow> (\<exists>v n. r = Some (v, n) \<and> n \<le> ln))
        \<and> (\<forall>v n. r = Some (v, n) \<longrightarrow>
              (lessP' = Some (v, n) \<or> (v \<in> set vs \<and> n = cnt v))
              \<and> (\<forall>var \<in> set vs. n \<le> cnt var))" ..
  from R have r1: "select_loop st asg vs lessP' = Inr r" by (rule conjunct1)
  from R have r2: "\<forall>lv ln. lessP' = Some (lv, ln) \<longrightarrow> (\<exists>v n. r = Some (v, n) \<and> n \<le> ln)"
    by (elim conjE)
  from R have r3: "\<forall>v n. r = Some (v, n) \<longrightarrow>
           (lessP' = Some (v, n) \<or> (v \<in> set vs \<and> n = cnt v)) \<and> (\<forall>var \<in> set vs. n \<le> cnt var)"
    by (elim conjE)
  from r2 [rule_format, OF l3] obtain v n where rv: "r = Some (v, n)" and n: "n \<le> ln'"
    by (elim exE conjE)
  from r3 [rule_format, OF rv] have
    r4: "lessP' = Some (v, n) \<or> (v \<in> set vs \<and> n = cnt v)" and
    r5: "\<forall>var \<in> set vs. n \<le> cnt var"
    by (rule conjunct1, rule conjunct2)
  have a: "\<exists>v n. r = Some (v, n) \<and> n \<le> ln" if "lessP = Some (lv, ln)" for lv ln
  proof -
    from l2 [OF that] l3 have "ln' \<le> ln" by simp
    with rv n show ?thesis by simp
  qed
  have b: "lessP = Some (v, n) \<or> (v \<in> set (var # vs) \<and> n = cnt v)"
    using r4 l1 by auto
  have c: "\<forall>var' \<in> set (var # vs). n \<le> cnt var'"
    using r5 n l4 by simp
  have sel: "select_loop st asg (var # vs) lessP = Inr (Some (v, n))"
    using step r1 rv by (simp del: select_loop.simps)
  show ?case
  proof (rule exI [of _ "Some (v, n)"], intro conjI)
    show "select_loop st asg (var # vs) lessP = Inr (Some (v, n))" by (rule sel)
    show "var # vs \<noteq> [] \<longrightarrow> Some (v, n) \<noteq> None" by simp
    show "\<forall>lv ln. lessP = Some (lv, ln) \<longrightarrow> (\<exists>v' n'. Some (v, n) = Some (v', n') \<and> n' \<le> ln)"
      using a rv by auto
    show "\<forall>v' n'. Some (v, n) = Some (v', n') \<longrightarrow>
            (lessP = Some (v', n') \<or> (v' \<in> set (var # vs) \<and> n' = cnt v'))
            \<and> (\<forall>var' \<in> set (var # vs). n' \<le> cnt var')"
      using b c by (simp del: select_loop.simps)
  qed
qed

lemma select_unassigned_variable_empty_assignment:
  "select_unassigned_variable st [] =
     (case select_loop st [] (variables (crossword st)) None of
        Inl e \<Rightarrow> Inl e
      | Inr lessP \<Rightarrow> Inr (map_option fst lessP, st))"
  by (simp add: select_unassigned_variable_def dict_keys_def)

lemma backtrack_empty_domain:
  assumes wf: "wf_crossword cw" and inv: "solver_inv cw st"
    and e: "dict_get (domains st) x = Inr []"
  shows "backtrack st [] = Inr (None, st)"
proof -
  from inv have cw: "crossword st = cw" and keys: "dict_keys (domains st) = variables cw"
    by (simp_all add: solver_inv_def)
  from dict_get_key [OF e] have "x \<in> set (dict_keys (domains st))"
    by (force simp: dict_keys_def)
  with keys have xv: "x \<in> set (variables cw)" by simp
  then have ne: "variables cw \<noteq> []" by auto
  with keys have nc: "\<not> assignment_complete st []"
    by (simp add: assignment_complete_def dict_keys_def)
  from e have x0: "domain_size st x = 0"
    by (auto simp: domain_size_def dict_get_def split: option.splits)
  have ok: "\<forall>var \<in> set (variables cw).
              \<exists>vals. order_domain_values st var [] = Inr vals \<and> length vals = domain_size st var"
    using order_domain_values_ok [OF wf inv] by blast
  from select_loop_least [OF ok, of None] obtain r where
    R: "select_loop st [] (variables cw) None = Inr r
        \<and> (variables cw \<noteq> [] \<longrightarrow> r \<noteq> None)
        \<and> (\<forall>lv ln. (None :: (variable \<times> nat) option) = Some (lv, ln)
               \<longrightarrow> (\<exists>v n. r = Some (v, n) \<and> n \<le> ln))
        \<and> (\<forall>v n. r = Some (v, n) \<longrightarrow>
              (None = Some (v, n) \<or> (v \<in> set (variables cw) \<and> n = domain_size st v))
              \<and> (\<forall>var \<in> set (variables cw). n \<le> domain_size st var))" ..
  from R have r1: "select_loop st [] (variables cw) None = Inr r" by (rule conjunct1)
  from R ne have "r \<noteq> None" by (elim conjE) simp
  then obtain v n where rv: "r = Some (v, n)" by (cases r) auto
  from R have r3: "\<forall>v n. r = Some (v, n) \<longrightarrow>
              (None = Some (v, n) \<or> (v \<in> set (variables cw) \<and> n = domain_size st v))
              \<and> (\<forall>var \<in> set (variables cw). n \<le> domain_size st var)"
    by (elim conjE)
  from r3 [rule_format, OF rv] have
    v: "v \<in> set (variables cw)" and n: "n = domain_size st v" and
    least: "\<forall>var \<in> set (variables cw). n \<le> domain_size st var"
    by blast+
  from least xv x0 have "n = 0" by force
  from ok v obtain vals where
    vals: "order_domain_values st v [] = Inr vals" "length vals = domain_size st v" by blast
  with n \<open>n = 0\<close> have "vals = []" by simp
  have sel: "select_unassigned_variable st [] = Inr (Some v, st)"
    by (simp add: select_unassigned_variable_empty_assignment cw r1 rv)
  show ?thesis
    by (subst backtrack.simps) (simp add: nc sel vals(1) \<open>vals = []\<close>)
qed

text \<open>
  C6. On a well-formed instance: whenever \<open>revise\<close> leaves the domain of \<open>x\<close> empty,
  \<open>ac3\<close> returns \<open>False\<close> at once, with the domains as that \<open>revise\<close> left them and
  whatever arcs are pending; and when \<open>ac3\<close> has returned \<open>False\<close> in \<open>solve\<close>, some
  variable has an empty domain and \<open>solve\<close> returns \<open>None\<close>, the value \<open>backtrack\<close>
  returns when it has no candidate left, and no assignment.
\<close>

theorem ac3_failure_is_no_solution:
  assumes wf: "wf_crossword cw"
    and fail: "ac3 (enforce_node_consistency (init cw)) None = Inr (False, st2)"
  shows "outcome (solve (init cw)) = Inr None
         \<and> (\<exists>x \<in> set (variables cw). dict_get (domains st2) x = Inr [])
         \<and> (\<forall>st x y arcs st'.
               revise st x y = Inr (True, st') \<longrightarrow> dict_get (domains st') x = Inr [] \<longrightarrow>
               ac3_loop st ((x, y) # arcs) = Inr (False, st'))"
proof -
  let ?st1 = "enforce_node_consistency (init cw)"
  from fail have loop: "ac3_loop ?st1 (all_arcs ?st1) = Inr (False, st2)"
    by (simp add: ac3_def)
  have inv: "solver_inv cw st2"
    by (rule ac3_loop_solver_inv [OF loop solver_inv_init])
  from ac3_loop_False_empty [OF loop] obtain x where x: "dict_get (domains st2) x = Inr []" ..
  from dict_get_key [OF x] have "x \<in> set (dict_keys (domains st2))"
    by (force simp: dict_keys_def)
  with inv have xv: "x \<in> set (variables cw)" by (simp add: solver_inv_def)
  have "backtrack st2 [] = Inr (None, st2)"
    by (rule backtrack_empty_domain [OF wf inv x])
  with fail have "outcome (solve (init cw)) = Inr None"
    by (simp add: solve_def outcome_def)
  moreover from x xv have "\<exists>x \<in> set (variables cw). dict_get (domains st2) x = Inr []" ..
  moreover have "ac3_loop st ((x, y) # arcs) = Inr (False, st')"
    if "revise st x y = Inr (True, st')" "dict_get (domains st') x = Inr []"
    for st x y arcs st'
    using that by simp
  ultimately show ?thesis by blast
qed

theorem ac3_failure_is_no_solution_witness:
  "wf_crossword cw_fail
   \<and> (\<exists>st2. ac3 (enforce_node_consistency (init cw_fail)) None = Inr (False, st2)
         \<and> outcome (solve (init cw_fail)) = Inr None
         \<and> (\<exists>x \<in> set (variables cw_fail). dict_get (domains st2) x = Inr [])
         \<and> revise (enforce_node_consistency (init cw_fail)) H_slot V_slot = Inr (True, st2)
         \<and> dict_get (domains st2) H_slot = Inr []
         \<and> ac3_loop (enforce_node_consistency (init cw_fail)) [(H_slot, V_slot), (V_slot, H_slot)]
             = Inr (False, st2))"
proof -
  have wf: "wf_crossword cw_fail" by code_simp
  have "(case revise (enforce_node_consistency (init cw_fail)) H_slot V_slot of
           Inl e \<Rightarrow> False
         | Inr (revised, st') \<Rightarrow> revised \<and> dict_get (domains st') H_slot = Inr [])"
    by code_simp
  then obtain st2 where
    rv: "revise (enforce_node_consistency (init cw_fail)) H_slot V_slot = Inr (True, st2)" and
    em: "dict_get (domains st2) H_slot = Inr []"
    by (auto split: sum.splits)
  have arcs: "all_arcs (enforce_node_consistency (init cw_fail)) = [(H_slot, V_slot), (V_slot, H_slot)]"
    by code_simp
  from rv em have loop: "ac3_loop (enforce_node_consistency (init cw_fail)) [(H_slot, V_slot), (V_slot, H_slot)]
      = Inr (False, st2)" by simp
  with arcs have fail: "ac3 (enforce_node_consistency (init cw_fail)) None = Inr (False, st2)"
    by (simp add: ac3_def)
  from ac3_failure_is_no_solution [OF wf fail] rv em loop wf fail show ?thesis by blast
qed

subsection \<open>C7: the variable set of the problem instance\<close>

text \<open>
  C7 asks that every solver operation leaves the crossword's variable set as it was.
  \<open>select_unassigned_variable\<close> removes the assigned variables from it, and so do
  \<open>backtrack\<close> and \<open>solve\<close>, which call it.
\<close>

theorem select_unassigned_variable_shrinks_variables:
  "variables (crossword (init cw_rows)) = [A2, B2]
   \<and> variables_after (select_unassigned_variable (init cw_rows) [(A2, ''AB'')]) = Inr [B2]
   \<and> variables_after (solve (init cw_rows)) = Inr [B2]"
  by code_simp

text \<open>The operations before the search leave the crossword alone.\<close>

lemma enforce_node_consistency_crossword:
  "crossword (enforce_node_consistency st) = crossword st"
  by (simp add: enforce_node_consistency_def)

lemma revise_crossword: "revise st x y = Inr (revised, st') \<Longrightarrow> crossword st' = crossword st"
  by (auto simp: revise_def split: option.splits sum.splits if_splits)

subsection \<open>C8: the tie-break of \<open>select_unassigned_variable\<close>\<close>

text \<open>
  C8 asks that among the unassigned variables with the fewest remaining values one with
  the largest neighbor set is returned. The code compares the two neighbor sets with
  \<open>>\<close>, which is proper superset: \<open>P_across\<close> and \<open>Q_across\<close> have one value each, \<open>Q_across\<close> has two
  neighbors and \<open>P_across\<close> one, the sets are disjoint, and \<open>P_across\<close>, visited first, is returned.
\<close>

theorem select_unassigned_variable_ignores_degree:
  "outcome (select_unassigned_variable (enforce_node_consistency (init cw_degree)) [])
     = Inr (Some P_across)
   \<and> map (\<lambda>v. map_option length (map_of (domains (enforce_node_consistency (init cw_degree))) v))
         [P_across, Q_across, P_down, Q_down, Q_down2] = [Some 1, Some 1, Some 1, Some 1, Some 1]
   \<and> neighbors cw_degree P_across = [P_down]
   \<and> neighbors cw_degree Q_across = [Q_down, Q_down2]"
  by code_simp

subsection \<open>C9: solving twice\<close>

text \<open>
  C9 asks that two invocations of \<open>solve\<close> on the same problem instance return equal
  results. The first invocation removes variables from the instance, so the second one
  on the same object raises \<open>KeyError\<close> (it looks up \<open>self.domains['x']\<close>), and a new
  solver on the same crossword assigns one variable only.
\<close>

theorem second_solve_differs:
  "outcome (solve (init cw_rows)) = Inr (Some [(A2, ''AB''), (B2, ''AB'')])
   \<and> solve_again (init cw_rows) = Inl KeyError
   \<and> solve_again_fresh cw_rows = Inr (Some [(B2, ''AB'')])"
  by code_simp

subsection \<open>C10: \<open>consistent\<close> on the empty assignment\<close>

text \<open>
  C10. Applied to the empty assignment, \<open>consistent\<close> returns \<open>None\<close>, not \<open>True\<close>: the
  loop body is never entered and the function ends without a \<open>return\<close>.
\<close>

theorem consistent_empty_is_None: "consistent st [] = Inr None"
  by (simp add: consistent_def)

end
